theory Spec2Isabelle
  imports Complex_Main
begin

section \<open>Data model\<close>

text \<open>
  The model follows \<open>main.py\<close>. Python integers are \<open>int\<close>; the scores, which the source
  computes in floating point, are idealised as \<open>real\<close>. The two exceptions that the
  enrichment stage itself can raise are the values of \<open>py_error\<close>.
\<close>

datatype py_error = ZeroDivisionError | ValueError

text \<open>One entry of \<open>trends_data\<close>: the dictionary with the keys keyword and trends_score.\<close>

record trend_record =
  keyword :: string
  trends_score :: real

text \<open>
  One row of \<open>final_df\<close>. A column that the frame does not have, or a cell that the left
  join leaves empty, is \<open>None\<close>.
\<close>

record final_record =
  final_keyword :: string
  final_trends_score :: "real option"
  final_cpc_usd :: "real option"

text \<open>
  The frame returned by \<open>interest_over_time\<close>: its columns in order, each a label with
  its values. All columns of a frame have the same number of values (the length of the index).
  The values of a keyword's column are the integers of the interest index. Reading a column
  by its label takes the first column with that label; the source gets a frame instead of a
  series when several columns carry the label, which is outside the model.
\<close>

type_synonym dataframe = "(string \<times> int list) list"

text \<open>One call of the provider either raises an exception or returns a frame.\<close>

datatype response = Raises | Returns dataframe

text \<open>
  The provider is outside the program. Its answer to the request made for batch number \<open>i\<close>
  (counted from 1) while the attempt counter has the value \<open>attempt\<close> is
  \<open>provider i attempt kw_batch\<close>; every such request is made at most once in a run, so any
  sequence of answers is such a function.
\<close>

type_synonym provider = "nat \<Rightarrow> nat \<Rightarrow> string list \<Rightarrow> response"

text \<open>
  What the run does to the outside world, in order: a request to the provider (batch number,
  value of the attempt counter, keywords of the batch) or a call of \<open>time.sleep\<close>.
\<close>

datatype event = Request nat nat "string list" | Sleep int

record fetch_state =
  trends_data :: "trend_record list"
  events :: "event list"

text \<open>
  An exception that leaves the fetch is kept with the state in which it was raised, so that
  what the run had done before it failed can be read off the result.
\<close>

type_synonym raised = "py_error \<times> fetch_state"

section \<open>The batcher\<close>

text \<open>
  The loop of \<open>batch\<close>: \<open>islice\<close> takes the next \<open>n\<close> elements, and the loop stops at the
  first empty slice.
\<close>

function chunks :: "nat \<Rightarrow> 'a list \<Rightarrow> 'a list list" where
  "chunks n xs = (if take n xs = [] then [] else take n xs # chunks n (drop n xs))"
  by pat_completeness auto
termination
  by (relation "measure (\<lambda>(n, xs). length xs)") auto

declare chunks.simps [simp del]

text \<open>
  \<open>islice\<close> raises ValueError for a negative stop argument, when the generator is first
  advanced, hence before any batch is yielded.
\<close>

definition batch :: "'a list \<Rightarrow> int \<Rightarrow> py_error + 'a list list" where
  "batch iterable n = (if n < 0 then Inl ValueError else Inr (chunks (nat n) iterable))"

text \<open>Line 117; the floor division raises for a zero divisor.\<close>

definition total_batches :: "'a list \<Rightarrow> int \<Rightarrow> py_error + int" where
  "total_batches keywords batch_size =
     (if batch_size = 0 then Inl ZeroDivisionError
      else Inr ((int (length keywords) + batch_size - 1) div batch_size))"

section \<open>The fetcher\<close>

text \<open>\<open>time.sleep\<close> raises ValueError for a negative length.\<close>

definition time_sleep :: "int \<Rightarrow> fetch_state \<Rightarrow> raised + fetch_state" where
  "time_sleep secs st =
     (if secs < 0 then Inl (ValueError, st)
      else Inr (st\<lparr>events := events st @ [Sleep secs]\<rparr>))"

text \<open>\<open>data.empty\<close>: the frame has no column or no row.\<close>

definition df_empty :: "dataframe \<Rightarrow> bool" where
  "df_empty data = (case data of [] \<Rightarrow> True | (label, vals) # cols \<Rightarrow> vals = [])"

text \<open>\<open>data.drop(columns=[label])\<close> removes every column with that label.\<close>

definition drop_columns :: "string \<Rightarrow> dataframe \<Rightarrow> dataframe" where
  "drop_columns label data = filter (\<lambda>c. fst c \<noteq> label) data"

text \<open>Lines 131 and 132.\<close>

definition drop_isPartial :: "dataframe \<Rightarrow> dataframe" where
  "drop_isPartial data =
     (if ''isPartial'' \<in> set (map fst data) then drop_columns ''isPartial'' data else data)"

text \<open>\<open>Series.mean\<close> of a column of integers.\<close>

definition mean :: "int list \<Rightarrow> real" where
  "mean vals = real_of_int (sum_list vals) / real (length vals)"

text \<open>Lines 134 to 139: the loop over the keywords of the batch, appending to \<open>trends_data\<close>.\<close>

fun append_scores :: "dataframe \<Rightarrow> string list \<Rightarrow> trend_record list \<Rightarrow> trend_record list" where
  "append_scores data [] acc = acc"
| "append_scores data (kw # kws) acc =
     (case map_of data kw of
        Some vals \<Rightarrow> append_scores data kws (acc @ [\<lparr>keyword = kw, trends_score = mean vals\<rparr>])
      | None \<Rightarrow> append_scores data kws acc)"

text \<open>
  The body of the \<open>try\<close> (lines 124 to 143). The result is \<open>True\<close> when the body reaches its
  \<open>break\<close> and \<open>False\<close> when an exception leaves it; what was appended to \<open>trends_data\<close>
  before the exception stays. The sleep of line 142 is inside the \<open>try\<close>, so its ValueError
  is caught like any other.
\<close>

definition try_block ::
  "provider \<Rightarrow> int \<Rightarrow> nat \<Rightarrow> string list \<Rightarrow> nat \<Rightarrow> fetch_state \<Rightarrow> bool \<times> fetch_state" where
  "try_block P delay i kw_batch attempt st =
     (let st1 = st\<lparr>events := events st @ [Request i attempt kw_batch]\<rparr> in
      case P i attempt kw_batch of
        Raises \<Rightarrow> (False, st1)
      | Returns data \<Rightarrow>
          if df_empty data then (False, st1)
          else
            let st2 = st1\<lparr>trends_data :=
                        append_scores (drop_isPartial data) kw_batch (trends_data st1)\<rparr>
            in (case time_sleep delay st2 of
                  Inl e \<Rightarrow> (False, st2)
                | Inr st3 \<Rightarrow> (True, st3)))"

text \<open>
  The \<open>while attempt < retries\<close> loop of one batch (lines 122 to 154). An exception of the
  sleep in the handler (line 151) is not caught and ends the run.
\<close>

function attempt_loop ::
  "provider \<Rightarrow> int \<Rightarrow> int \<Rightarrow> int \<Rightarrow> nat \<Rightarrow> string list \<Rightarrow> nat \<Rightarrow> fetch_state
     \<Rightarrow> raised + fetch_state" where
  "attempt_loop P retries backoff delay i kw_batch attempt st =
     (if int attempt < retries then
        (if fst (try_block P delay i kw_batch attempt st)
         then Inr (snd (try_block P delay i kw_batch attempt st))
         else if int (Suc attempt) < retries then
           (case time_sleep (backoff * int (Suc attempt))
                   (snd (try_block P delay i kw_batch attempt st)) of
              Inl e \<Rightarrow> Inl e
            | Inr st2 \<Rightarrow> attempt_loop P retries backoff delay i kw_batch (Suc attempt) st2)
         else Inr (snd (try_block P delay i kw_batch attempt st)))
      else Inr st)"
  by pat_completeness auto
termination
  by (relation "measure (\<lambda>(P, retries, backoff, delay, i, kw_batch, attempt, st).
                   nat (retries - int attempt))") auto

declare attempt_loop.simps [simp del]

text \<open>The \<open>for\<close> loop over the numbered batches (line 120).\<close>

fun batch_loop ::
  "provider \<Rightarrow> int \<Rightarrow> int \<Rightarrow> int \<Rightarrow> nat \<Rightarrow> string list list \<Rightarrow> fetch_state
     \<Rightarrow> raised + fetch_state" where
  "batch_loop P retries backoff delay i [] st = Inr st"
| "batch_loop P retries backoff delay i (kw_batch # rest) st =
     (case attempt_loop P retries backoff delay i kw_batch 0 st of
        Inl e \<Rightarrow> Inl e
      | Inr st1 \<Rightarrow> batch_loop P retries backoff delay (Suc i) rest st1)"

text \<open>
  \<open>fetch_google_trends\<close>. The value returned by the source is the \<open>trends_data\<close> of the
  final state; the events are kept beside it. The batch count of line 117 is computed, and
  can raise, before the loop starts; the error of \<open>batch\<close> is raised when the \<open>for\<close>
  statement asks for the first batch. Both leave the state as it was at the start. The region
  code is only handed on to the provider and is left out.
\<close>

definition fetch_google_trends ::
  "provider \<Rightarrow> string list \<Rightarrow> int \<Rightarrow> int \<Rightarrow> int \<Rightarrow> int \<Rightarrow> raised + fetch_state" where
  "fetch_google_trends P keywords retries backoff batch_size delay =
     (let st0 = \<lparr>trends_data = [], events = []\<rparr> in
      case total_batches keywords batch_size of
        Inl e \<Rightarrow> Inl (e, st0)
      | Inr n_total \<Rightarrow>
          (case batch keywords batch_size of
             Inl e \<Rightarrow> Inl (e, st0)
           | Inr batches \<Rightarrow> batch_loop P retries backoff delay 1 batches st0))"

section \<open>The merge stage of the driver\<close>

text \<open>
  \<open>str.split()\<close> without arguments: the maximal runs of characters that are not white
  space. The white space is that of ASCII; Python also splits at the other Unicode spaces.
\<close>

definition is_space :: "char \<Rightarrow> bool" where
  "is_space c = (c \<in> set [CHR '' '', CHR 0x09, CHR 0x0A, CHR 0x0B, CHR 0x0C, CHR 0x0D,
                          CHR 0x1C, CHR 0x1D, CHR 0x1E, CHR 0x1F])"

fun split_ws :: "string \<Rightarrow> string \<Rightarrow> string list" where
  "split_ws word [] = (if word = [] then [] else [word])"
| "split_ws word (c # cs) =
     (if is_space c then (if word = [] then split_ws [] cs else word # split_ws [] cs)
      else split_ws (word @ [c]) cs)"

text \<open>\<open>round(x, 2)\<close>.\<close>

definition round2 :: "real \<Rightarrow> real" where
  "round2 x = real_of_int (round (x * 100)) / 100"

definition get_cpc_from_ubersuggest :: "string \<Rightarrow> real" where
  "get_cpc_from_ubersuggest kw = round2 (0.5 + 0.1 * real (length (split_ws [] kw)))"

text \<open>
  \<open>pd.merge(left, right, on="keyword", how="left")\<close>: the rows of the left frame in order,
  each once for every row of the right frame with its keyword, and once with an empty cell
  when there is none. A left row is a keyword with its score, if the frame has that column.
\<close>

definition merge_row :: "(string \<times> real) list \<Rightarrow> string \<times> real option \<Rightarrow> final_record list" where
  "merge_row right row =
     (case filter (\<lambda>r. fst r = fst row) right of
        [] \<Rightarrow> [\<lparr>final_keyword = fst row, final_trends_score = snd row, final_cpc_usd = None\<rparr>]
      | m # ms \<Rightarrow>
          map (\<lambda>r. \<lparr>final_keyword = fst row, final_trends_score = snd row,
                     final_cpc_usd = Some (snd r)\<rparr>) (m # ms))"

definition pd_merge_left ::
  "(string \<times> real option) list \<Rightarrow> (string \<times> real) list \<Rightarrow> final_record list" where
  "pd_merge_left left right = concat (map (merge_row right) left)"

text \<open>Lines 214 to 220: \<open>trends_df\<close>.\<close>

definition trends_df :: "string list \<Rightarrow> trend_record list \<Rightarrow> real \<Rightarrow> (string \<times> real option) list" where
  "trends_df expanded_keywords fetched min_score =
     (if fetched = [] then map (\<lambda>kw. (kw, None)) expanded_keywords
      else map (\<lambda>r. (keyword r, Some (trends_score r)))
             (filter (\<lambda>r. min_score \<le> trends_score r) fetched))"

text \<open>Lines 222 to 231: \<open>cpc_df\<close>.\<close>

definition cpc_df :: "(string \<times> real option) list \<Rightarrow> (string \<times> real) list" where
  "cpc_df tdf =
     (if tdf = [] then [] else map (\<lambda>row. (fst row, get_cpc_from_ubersuggest (fst row))) tdf)"

text \<open>Lines 214 to 236: \<open>final_df\<close> from the expanded keywords and the fetched records.\<close>

definition final_df :: "string list \<Rightarrow> trend_record list \<Rightarrow> real \<Rightarrow> final_record list" where
  "final_df expanded_keywords fetched min_score =
     (let tdf = trends_df expanded_keywords fetched min_score; cdf = cpc_df tdf
      in if tdf \<noteq> [] \<and> cdf \<noteq> [] then pd_merge_left tdf cdf
         else map (\<lambda>row. \<lparr>final_keyword = fst row, final_trends_score = snd row,
                            final_cpc_usd = None\<rparr>) tdf)"

section \<open>Describing a run\<close>

text \<open>
  The definitions of this section are not in the source: they say what a run is expected
  to do, in the words of the specification, and the theorems below compare the source with
  them.
\<close>

text \<open>An attempt is usable when the provider returns a frame that is not empty.\<close>

definition usable :: "provider \<Rightarrow> nat \<Rightarrow> string list \<Rightarrow> nat \<Rightarrow> bool" where
  "usable P i kw_batch attempt =
     (case P i attempt kw_batch of Raises \<Rightarrow> False | Returns data \<Rightarrow> \<not> df_empty data)"


text \<open>The records of a frame for the keywords of a batch: one for each keyword with a column.\<close>

definition records_of :: "dataframe \<Rightarrow> string list \<Rightarrow> trend_record list" where
  "records_of data kw_batch =
     concat (map (\<lambda>kw. case map_of data kw of
                          Some vals \<Rightarrow> [\<lparr>keyword = kw, trends_score = mean vals\<rparr>]
                        | None \<Rightarrow> []) kw_batch)"

text \<open>
  The events of \<open>k\<close> failed attempts that are each followed by a retry: the request of
  attempt \<open>a\<close> (counted from 0) and the sleep of \<open>backoff\<close> times the new counter value.
\<close>

definition retry_events :: "int \<Rightarrow> nat \<Rightarrow> string list \<Rightarrow> nat \<Rightarrow> event list" where
  "retry_events backoff i kw_batch k =
     concat (map (\<lambda>a. [Request i a kw_batch, Sleep (backoff * int (Suc a))]) [0..<k])"

text \<open>The first usable attempt of a batch among its \<open>retries\<close> attempts, if there is one.\<close>

definition first_usable :: "provider \<Rightarrow> int \<Rightarrow> nat \<Rightarrow> string list \<Rightarrow> nat option" where
  "first_usable P retries i kw_batch = find (usable P i kw_batch) [0..<nat retries]"

text \<open>
  The events of one batch: the failed attempts with their backoff sleeps, then either the
  usable attempt and the sleep of \<open>delay\<close>, or, when no attempt is usable, the last failed
  attempt with no sleep after it.
\<close>

definition batch_events :: "provider \<Rightarrow> int \<Rightarrow> int \<Rightarrow> int \<Rightarrow> nat \<Rightarrow> string list \<Rightarrow> event list" where
  "batch_events P retries backoff delay i kw_batch =
     (case first_usable P retries i kw_batch of
        Some k \<Rightarrow> retry_events backoff i kw_batch k @ [Request i k kw_batch, Sleep delay]
      | None \<Rightarrow>
          if retries \<le> 0 then []
          else retry_events backoff i kw_batch (nat retries - 1)
                 @ [Request i (nat retries - 1) kw_batch])"

text \<open>The records of one batch: those of the frame of its first usable attempt.\<close>

definition batch_records :: "provider \<Rightarrow> int \<Rightarrow> nat \<Rightarrow> string list \<Rightarrow> trend_record list" where
  "batch_records P retries i kw_batch =
     (case first_usable P retries i kw_batch of
        Some k \<Rightarrow>
          (case P i k kw_batch of
             Raises \<Rightarrow> []
           | Returns data \<Rightarrow> records_of (drop_isPartial data) kw_batch)
      | None \<Rightarrow> [])"

text \<open>
  Two providers for the examples. The first fails for batch 2 and otherwise returns, like the
  real one, a column for each keyword of the request and the flag column \<open>isPartial\<close>. The
  second returns a frame without rows on the first attempt of every batch and the frame of
  the first provider afterwards.
\<close>

definition flagged_frame :: "string list \<Rightarrow> dataframe" where
  "flagged_frame kw_batch = map (\<lambda>kw. (kw, [40, 60])) kw_batch @ [(''isPartial'', [0, 0])]"

definition provider_failing_batch_2 :: provider where
  "provider_failing_batch_2 i attempt kw_batch =
     (if i = 2 then Raises else Returns (flagged_frame kw_batch))"


section \<open>Properties of the batcher\<close>

lemma chunks_zero [simp]: "chunks 0 xs = []"
  by (subst chunks.simps) simp

lemma chunks_nil [simp]: "chunks n [] = []"
  by (subst chunks.simps) simp

lemma chunks_step: "0 < n \<Longrightarrow> xs \<noteq> [] \<Longrightarrow> chunks n xs = take n xs # chunks n (drop n xs)"
  by (subst chunks.simps) simp

lemma chunks_concat: "0 < n \<Longrightarrow> concat (chunks n xs) = xs"
proof (induction n xs rule: chunks.induct)
  case (1 n xs)
  show ?case
  proof (cases "take n xs = []")
    case True
    then show ?thesis using 1(2) by (subst chunks.simps) (auto simp: take_eq_Nil)
  next
    case False
    with 1 show ?thesis by (subst chunks.simps) simp
  qed
qed

lemma ceil_div_Suc: "0 < n \<Longrightarrow> (Suc k + n - 1) div n = Suc (k div n)" for k n :: nat
proof -
  assume n: "0 < n"
  have "Suc k + n - 1 = k + n" by simp
  moreover have "(k + n) div n = Suc (k div n)" using n by simp
  ultimately show ?thesis by (simp only:)
qed

lemma ceil_div_step: "0 < n \<Longrightarrow> n \<le> m \<Longrightarrow> (m + n - 1) div n = Suc ((m - n + n - 1) div n)" for m n :: nat
proof -
  assume a: "0 < n" "n \<le> m"
  then obtain k where k: "m = Suc k" by (cases m) auto
  have "m - n + n - 1 = k" using a k by simp
  then show ?thesis using ceil_div_Suc[OF a(1), of k] k by (simp only:)
qed

lemma ceil_div_small: "0 < m \<Longrightarrow> m < n \<Longrightarrow> (m + n - 1) div n = Suc 0" for m n :: nat
proof -
  assume a: "0 < m" "m < n"
  then obtain k where k: "m = Suc k" by (cases m) auto
  have "k div n = 0" using a k by simp
  then show ?thesis using ceil_div_Suc[of n k] a k by (simp only:)
qed

lemma chunks_length: "0 < n \<Longrightarrow> length (chunks n xs) = (length xs + n - 1) div n"
proof (induction n xs rule: chunks.induct)
  case (1 n xs)
  show ?case
  proof (cases "xs = []")
    case True
    then show ?thesis using 1(2) by simp
  next
    case False
    then have ne: "take n xs \<noteq> []" using 1(2) by simp
    have ih: "length (chunks n (drop n xs)) = (length (drop n xs) + n - 1) div n"
      using 1(1)[OF ne 1(2)] .
    show ?thesis
    proof (cases "n \<le> length xs")
      case True
      then show ?thesis using ih False 1(2) ceil_div_step[of n "length xs"] by (simp add: chunks_step)
    next
      case F2: False
      then show ?thesis using ih False 1(2) ceil_div_small[of "length xs" n] by (simp add: chunks_step)
    qed
  qed
qed

lemma chunks_butlast_len: "0 < n \<Longrightarrow> b \<in> set (butlast (chunks n xs)) \<Longrightarrow> length b = n"
proof (induction n xs arbitrary: b rule: chunks.induct)
  case (1 n xs)
  show ?case
  proof (cases "xs = []")
    case True
    then show ?thesis using 1(3) by simp
  next
    case False
    then have ne: "take n xs \<noteq> []" using 1(2) by simp
    have st: "chunks n xs = take n xs # chunks n (drop n xs)" using False 1(2) by (rule chunks_step[rotated])
    show ?thesis
    proof (cases "chunks n (drop n xs) = []")
      case True
      then show ?thesis using 1(3) st by simp
    next
      case F2: False
      then have dne: "drop n xs \<noteq> []" by auto
      from 1(3) st F2 have "b = take n xs \<or> b \<in> set (butlast (chunks n (drop n xs)))" by auto
      then show ?thesis
      proof
        assume "b = take n xs"
        then show ?thesis using dne by simp
      next
        assume "b \<in> set (butlast (chunks n (drop n xs)))"
        then show ?thesis using 1(1)[OF ne 1(2)] by simp
      qed
    qed
  qed
qed

lemma chunks_all_len: "0 < n \<Longrightarrow> b \<in> set (chunks n xs) \<Longrightarrow> 1 \<le> length b \<and> length b \<le> n"
proof (induction n xs arbitrary: b rule: chunks.induct)
  case (1 n xs)
  show ?case
  proof (cases "xs = []")
    case True
    then show ?thesis using 1(3) by simp
  next
    case False
    then have ne: "take n xs \<noteq> []" using 1(2) by simp
    have st: "chunks n xs = take n xs # chunks n (drop n xs)" using False 1(2) by (rule chunks_step[rotated])
    from 1(3) st have "b = take n xs \<or> b \<in> set (chunks n (drop n xs))" by auto
    then show ?thesis
    proof
      assume "b = take n xs"
      then show ?thesis using False 1(2) by (cases xs) auto
    next
      assume "b \<in> set (chunks n (drop n xs))"
      then show ?thesis using 1(1)[OF ne 1(2)] by simp
    qed
  qed
qed

lemma ceiling_div_nat: "0 < n \<Longrightarrow> \<lceil>real m / real n\<rceil> = int ((m + n - 1) div n)" for m n :: nat
proof -
  assume n: "0 < n"
  define q where "q = (m + n - 1) div n"
  have up: "m \<le> q * n"
  proof -
    have "m + n - 1 < (q + 1) * n" unfolding q_def using n
      by (metis Suc_eq_plus1 dividend_less_div_times mult.commute mult_Suc)
    then show ?thesis by simp
  qed
  have lo: "q * n < m + n"
  proof -
    have "q * n \<le> m + n - 1" unfolding q_def by simp
    then show ?thesis using n by linarith
  qed
  have "real m / real n \<le> real q" using up n
    by (simp add: pos_divide_le_eq flip: of_nat_mult)
  moreover have "real q - 1 < real m / real n"
  proof -
    have "real (q * n) < real (m + n)" using lo by (simp only: of_nat_less_iff)
    then have "(real q - 1) * real n < real m" by (simp add: algebra_simps)
    then show ?thesis using n by (simp add: pos_less_divide_eq)
  qed
  ultimately have "\<lceil>real m / real n\<rceil> = int q" by (intro ceiling_unique) auto
  then show ?thesis by (simp add: q_def)
qed


text \<open>
  C4. For every keyword list and every n of at least 1, \<open>batch\<close> raises nothing and
  yields \<open>\<lceil>length keywords / n\<rceil>\<close> batches, which is the number that line 117
  computes; their concatenation is the input, in order; every batch but the last has exactly
  \<open>n\<close> keywords and the last has between 1 and \<open>n\<close>; the empty list yields no batch.
\<close>

theorem batch_split_shape:
  assumes "1 \<le> n"
  shows "\<exists>bs. batch keywords n = Inr bs
           \<and> concat bs = keywords
           \<and> int (length bs) = \<lceil>real (length keywords) / real_of_int n\<rceil>
           \<and> total_batches keywords n = Inr (int (length bs))
           \<and> (\<forall>b \<in> set (butlast bs). int (length b) = n)
           \<and> (bs \<noteq> [] \<longrightarrow> 1 \<le> length (last bs) \<and> int (length (last bs)) \<le> n)
           \<and> (keywords = [] \<longrightarrow> bs = [])"
proof -
  define m where "m = nat n"
  have m: "0 < m" and sz: "n = int m" using assms by (simp_all add: m_def)
  let ?bs = "chunks m keywords"
  have b: "batch keywords n = Inr ?bs" using assms by (simp add: batch_def m_def)
  have c: "concat ?bs = keywords" using m by (rule chunks_concat)
  have len: "length ?bs = (length keywords + m - 1) div m" using m by (rule chunks_length)
  have ceil: "int (length ?bs) = \<lceil>real (length keywords) / real_of_int n\<rceil>"
    using ceiling_div_nat[OF m, of "length keywords"] len by (simp add: sz)
  have "(int (length keywords) + int m - 1) div int m = int ((length keywords + m - 1) div m)"
  proof -
    have "int (length keywords) + int m - 1 = int (length keywords + m - 1)" using m by simp
    then show ?thesis by (simp only: zdiv_int)
  qed
  then have tot: "total_batches keywords n = Inr (int (length ?bs))"
    using m len by (simp add: total_batches_def sz)
  have bl: "\<forall>b \<in> set (butlast ?bs). int (length b) = n"
    using chunks_butlast_len[OF m] by (auto simp: sz)
  have la: "?bs \<noteq> [] \<longrightarrow> 1 \<le> length (last ?bs) \<and> int (length (last ?bs)) \<le> n"
  proof
    assume ne: "?bs \<noteq> []"
    then have "last ?bs \<in> set ?bs" by simp
    from chunks_all_len[OF m this]
    show "1 \<le> length (last ?bs) \<and> int (length (last ?bs)) \<le> n"
      by (simp add: sz)
  qed
  have em: "keywords = [] \<longrightarrow> ?bs = []" by simp
  from b c ceil tot bl la em show ?thesis by blast
qed

theorem batch_split_shape_witness:
  "(1::int) \<le> 3
   \<and> (\<exists>bs. batch [''p'', ''q'', ''r'', ''s'', ''t'', ''u'', ''v''] 3 = Inr bs
           \<and> concat bs = [''p'', ''q'', ''r'', ''s'', ''t'', ''u'', ''v'']
           \<and> int (length bs) = 3
           \<and> int (length (last bs)) = 1)"
proof -
  have h: "(1::int) \<le> 3" by simp
  have e: "batch [''p'', ''q'', ''r'', ''s'', ''t'', ''u'', ''v''] 3
             = Inr [[''p'', ''q'', ''r''], [''s'', ''t'', ''u''], [''v'']]"
    by (simp add: batch_def chunks.simps)
  from batch_split_shape[OF h, of "[''p'', ''q'', ''r'', ''s'', ''t'', ''u'', ''v'']"] e h
  show ?thesis by auto
qed

text \<open>
  C3, as the specification states it, fails: with size 0 the first slice is empty, so
  \<open>batch\<close> ends at once with no batch and no error.
\<close>

theorem batch_size_zero_no_error: "batch [''x'', ''y''] 0 = Inr []"
  by (simp add: batch_def)

text \<open>
  C3, amended. A negative size makes \<open>batch\<close> raise ValueError before any batch is
  produced; size 0 raises nothing in \<open>batch\<close> and gives no batch. The fetch itself fails for
  both before any request to the provider and before any sleep: the exception leaves it in
  the state of the start, with no event. For size 0 it is the ZeroDivisionError of the batch
  count of line 117, for a negative size the ValueError of \<open>batch\<close>, which leaves the
  \<open>for\<close> statement.
\<close>

theorem batch_size_not_positive:
  "(n < 0 \<longrightarrow> batch keywords n = Inl ValueError)
   \<and> batch keywords 0 = Inr []
   \<and> fetch_google_trends P keywords retries backoff 0 delay =
       Inl (ZeroDivisionError, \<lparr>trends_data = [], events = []\<rparr>)
   \<and> (n < 0 \<longrightarrow>
        fetch_google_trends P keywords retries backoff n delay =
          Inl (ValueError, \<lparr>trends_data = [], events = []\<rparr>))"
  by (simp add: batch_def fetch_google_trends_def total_batches_def Let_def)

theorem batch_size_not_positive_witness:
  "(-1::int) < 0 \<and> batch [''x'', ''y''] (-1) = Inl ValueError
   \<and> batch [''x'', ''y''] 0 = Inr ([] :: string list list)
   \<and> fetch_google_trends provider_failing_batch_2 [''x'', ''y''] 3 5 0 15 =
       Inl (ZeroDivisionError, \<lparr>trends_data = [], events = []\<rparr>)
   \<and> fetch_google_trends provider_failing_batch_2 [''x'', ''y''] 3 5 (-1) 15 =
       Inl (ValueError, \<lparr>trends_data = [], events = []\<rparr>)"
  using batch_size_not_positive[of "-1" "[''x'', ''y'']" provider_failing_batch_2 3 5 15]
  by simp

section \<open>Properties of the merge stage\<close>

lemma cpc_one_word: "get_cpc_from_ubersuggest ''x'' = 3 / 5"
  by (simp add: get_cpc_from_ubersuggest_def round2_def is_space_def)

lemma cpc_two_words: "get_cpc_from_ubersuggest ''whey protein'' = 7 / 10"
  by (simp add: get_cpc_from_ubersuggest_def round2_def is_space_def)

lemma filter_key_distinct:
  "distinct (map fst right) \<Longrightarrow>
     filter (\<lambda>r. fst r = k) right = (case map_of right k of None \<Rightarrow> [] | Some c \<Rightarrow> [(k, c)])"
proof (induction right)
  case Nil
  then show ?case by simp
next
  case (Cons r right)
  obtain k' c' where r: "r = (k', c')" by (cases r)
  show ?case
  proof (cases "k' = k")
    case True
    then have "map_of right k = None" using Cons.prems r by (simp add: map_of_eq_None_iff)
    then show ?thesis using Cons r True by simp
  next
    case False
    then show ?thesis using Cons r by simp
  qed
qed

lemma merge_row_distinct:
  "distinct (map fst right) \<Longrightarrow>
     merge_row right row =
       [\<lparr>final_keyword = fst row, final_trends_score = snd row,
         final_cpc_usd = map_of right (fst row)\<rparr>]"
  by (simp add: merge_row_def filter_key_distinct split: option.splits)

lemma pd_merge_left_distinct:
  "distinct (map fst right) \<Longrightarrow>
     pd_merge_left left right =
       map (\<lambda>row. \<lparr>final_keyword = fst row, final_trends_score = snd row,
                    final_cpc_usd = map_of right (fst row)\<rparr>) left"
  by (induction left) (simp_all add: pd_merge_left_def merge_row_distinct)

lemma merge_row_keys: "final_keyword ` set (merge_row right row) = {fst row}"
  by (auto simp: merge_row_def split: list.splits)

lemma pd_merge_left_keys: "final_keyword ` set (pd_merge_left left right) = fst ` set left"
proof -
  have "final_keyword ` set (pd_merge_left left right)
          = (\<Union>row \<in> set left. final_keyword ` set (merge_row right row))"
    by (auto simp: pd_merge_left_def)
  then show ?thesis by (simp add: merge_row_keys) auto
qed

lemma map_of_cpc:
  "map_of (map (\<lambda>row. (fst row, f (fst row))) tdf) k = (if k \<in> fst ` set tdf then Some (f k) else None)"
  by (induction tdf) auto

lemma final_df_distinct:
  assumes "distinct (map fst (trends_df kws fetched m))"
  shows "final_df kws fetched m =
           map (\<lambda>row. \<lparr>final_keyword = fst row, final_trends_score = snd row,
                        final_cpc_usd = Some (get_cpc_from_ubersuggest (fst row))\<rparr>)
             (trends_df kws fetched m)"
proof (cases "trends_df kws fetched m = []")
  case True
  then show ?thesis by (simp add: final_df_def cpc_df_def)
next
  case False
  let ?t = "trends_df kws fetched m"
  have c: "cpc_df ?t = map (\<lambda>row. (fst row, get_cpc_from_ubersuggest (fst row))) ?t"
    using False by (simp add: cpc_df_def)
  have d: "distinct (map fst (cpc_df ?t))" using assms by (simp add: c comp_def)
  have "final_df kws fetched m = pd_merge_left ?t (cpc_df ?t)"
    using False c by (simp add: final_df_def Let_def)
  also have "\<dots> = map (\<lambda>row. \<lparr>final_keyword = fst row, final_trends_score = snd row,
                        final_cpc_usd = map_of (cpc_df ?t) (fst row)\<rparr>) ?t"
    using d by (rule pd_merge_left_distinct)
  also have "\<dots> = map (\<lambda>row. \<lparr>final_keyword = fst row, final_trends_score = snd row,
                        final_cpc_usd = Some (get_cpc_from_ubersuggest (fst row))\<rparr>) ?t"
    by (simp add: c map_of_cpc)
  finally show ?thesis .
qed

lemma final_df_keys:
  "final_keyword ` set (final_df kws fetched m) = fst ` set (trends_df kws fetched m)"
proof (cases "trends_df kws fetched m \<noteq> [] \<and> cpc_df (trends_df kws fetched m) \<noteq> []")
  case True
  then show ?thesis by (simp add: final_df_def Let_def pd_merge_left_keys)
next
  case False
  then have "final_df kws fetched m =
      map (\<lambda>row. \<lparr>final_keyword = fst row, final_trends_score = snd row,
                            final_cpc_usd = None\<rparr>) (trends_df kws fetched m)"
    by (auto simp: final_df_def Let_def)
  then show ?thesis by (simp add: image_image)
qed


text \<open>
  C1, as the specification states it, fails in both of its cases. When the filter discards
  every fetched record, \<open>trends_df\<close> is empty and so is the output: the input keywords are
  not used. When nothing was fetched, the rows built from the input keywords do get a CPC
  value, since \<open>trends_df\<close> is then not empty and the CPC loop runs over it.
\<close>

theorem fallback_counterexample:
  "final_df [''x'', ''y''] [\<lparr>keyword = ''x'', trends_score = 30\<rparr>] 50 = []
   \<and> final_df [''x'', ''y''] [] 0 =
       [\<lparr>final_keyword = ''x'', final_trends_score = None, final_cpc_usd = Some (3 / 5)\<rparr>,
        \<lparr>final_keyword = ''y'', final_trends_score = None, final_cpc_usd = Some (3 / 5)\<rparr>]"
  by (simp add: final_df_def trends_df_def cpc_df_def pd_merge_left_def merge_row_def
      get_cpc_from_ubersuggest_def round2_def is_space_def)

text \<open>
  C1, amended. When the fetch produced no record, the merge stage returns one row for each
  keyword of the input list (the keywords being distinct), in order, without a score and
  with the CPC estimate of the keyword. When the fetch produced records and the filter
  discards them all, the merge stage returns no row.
\<close>

theorem fallback_on_empty_fetch:
  "(distinct expanded_keywords \<longrightarrow>
      final_df expanded_keywords [] min_score =
        map (\<lambda>kw. \<lparr>final_keyword = kw, final_trends_score = None,
                    final_cpc_usd = Some (get_cpc_from_ubersuggest kw)\<rparr>) expanded_keywords)
   \<and> (fetched \<noteq> [] \<and> (\<forall>r \<in> set fetched. trends_score r < min_score) \<longrightarrow>
        final_df expanded_keywords fetched min_score = [])"
proof (intro conjI impI)
  assume d: "distinct expanded_keywords"
  have t: "trends_df expanded_keywords [] min_score = map (\<lambda>kw. (kw, None)) expanded_keywords"
    by (simp add: trends_df_def)
  have "distinct (map fst (trends_df expanded_keywords [] min_score))"
    using d by (simp add: t comp_def)
  from final_df_distinct[OF this]
  show "final_df expanded_keywords [] min_score =
        map (\<lambda>kw. \<lparr>final_keyword = kw, final_trends_score = None,
                    final_cpc_usd = Some (get_cpc_from_ubersuggest kw)\<rparr>) expanded_keywords"
    by (simp add: t comp_def)
next
  assume a: "fetched \<noteq> [] \<and> (\<forall>r \<in> set fetched. trends_score r < min_score)"
  then have "filter (\<lambda>r. min_score \<le> trends_score r) fetched = []"
    by (auto simp: filter_empty_conv)
  then have "trends_df expanded_keywords fetched min_score = []"
    using a by (simp add: trends_df_def)
  then show "final_df expanded_keywords fetched min_score = []"
    by (simp add: final_df_def cpc_df_def)
qed

theorem fallback_on_empty_fetch_witness:
  "distinct [''x'', ''y'']
   \<and> final_df [''x'', ''y''] [] 0 =
       [\<lparr>final_keyword = ''x'', final_trends_score = None,
          final_cpc_usd = Some (get_cpc_from_ubersuggest ''x'')\<rparr>,
        \<lparr>final_keyword = ''y'', final_trends_score = None,
          final_cpc_usd = Some (get_cpc_from_ubersuggest ''y'')\<rparr>]
   \<and> [\<lparr>keyword = ''x'', trends_score = 30\<rparr>] \<noteq> []
   \<and> trends_score \<lparr>keyword = ''x'', trends_score = 30\<rparr> < 50
   \<and> final_df [''x'', ''y''] [\<lparr>keyword = ''x'', trends_score = 30\<rparr>] 50 = []"
  using fallback_on_empty_fetch[of "[''x'', ''y'']" 0 "[\<lparr>keyword = ''x'', trends_score = 30\<rparr>]"]
        fallback_on_empty_fetch[of "[''x'', ''y'']" 50 "[\<lparr>keyword = ''x'', trends_score = 30\<rparr>]"]
  by simp

text \<open>
  C9. When records were fetched (so outside the fallback), every keyword of the final rows
  is the keyword of a record that passed the filter; and when no keyword was fetched twice,
  the final rows are exactly the records that passed the filter, one row each and in their
  order, with the score and the CPC value. The left join itself, for any right frame with
  at most one row per keyword, gives exactly one row per left row, with an empty CPC cell
  where the right frame has no row for the keyword.
\<close>

theorem left_join_one_row_per_record:
  "(fetched \<noteq> [] \<longrightarrow>
      final_keyword ` set (final_df expanded_keywords fetched min_score)
        \<subseteq> keyword ` set (filter (\<lambda>r. min_score \<le> trends_score r) fetched))
   \<and> (fetched \<noteq> [] \<and> distinct (map keyword fetched) \<longrightarrow>
        final_df expanded_keywords fetched min_score =
          map (\<lambda>r. \<lparr>final_keyword = keyword r, final_trends_score = Some (trends_score r),
                      final_cpc_usd = Some (get_cpc_from_ubersuggest (keyword r))\<rparr>)
            (filter (\<lambda>r. min_score \<le> trends_score r) fetched))
   \<and> (distinct (map fst right) \<longrightarrow>
        pd_merge_left left right =
          map (\<lambda>row. \<lparr>final_keyword = fst row, final_trends_score = snd row,
                        final_cpc_usd = map_of right (fst row)\<rparr>) left)"
proof (intro conjI impI)
  assume ne: "fetched \<noteq> []"
  then have t: "trends_df expanded_keywords fetched min_score =
      map (\<lambda>r. (keyword r, Some (trends_score r)))
        (filter (\<lambda>r. min_score \<le> trends_score r) fetched)"
    by (simp add: trends_df_def)
  show "final_keyword ` set (final_df expanded_keywords fetched min_score)
        \<subseteq> keyword ` set (filter (\<lambda>r. min_score \<le> trends_score r) fetched)"
    by (simp only: final_df_keys t) (simp add: image_image)
next
  assume a: "fetched \<noteq> [] \<and> distinct (map keyword fetched)"
  then have t: "trends_df expanded_keywords fetched min_score =
      map (\<lambda>r. (keyword r, Some (trends_score r)))
        (filter (\<lambda>r. min_score \<le> trends_score r) fetched)"
    by (simp add: trends_df_def)
  have "distinct (map keyword (filter (\<lambda>r. min_score \<le> trends_score r) fetched))"
    using a by (simp add: distinct_map_filter)
  then have "distinct (map fst (trends_df expanded_keywords fetched min_score))"
    by (simp add: t comp_def)
  from final_df_distinct[OF this]
  show "final_df expanded_keywords fetched min_score =
          map (\<lambda>r. \<lparr>final_keyword = keyword r, final_trends_score = Some (trends_score r),
                      final_cpc_usd = Some (get_cpc_from_ubersuggest (keyword r))\<rparr>)
            (filter (\<lambda>r. min_score \<le> trends_score r) fetched)"
    by (simp add: t comp_def)
next
  assume "distinct (map fst right)"
  then show "pd_merge_left left right =
          map (\<lambda>row. \<lparr>final_keyword = fst row, final_trends_score = snd row,
                        final_cpc_usd = map_of right (fst row)\<rparr>) left"
    by (rule pd_merge_left_distinct)
qed

theorem left_join_one_row_per_record_witness:
  "[\<lparr>keyword = ''a'', trends_score = 70\<rparr>, \<lparr>keyword = ''b'', trends_score = 30\<rparr>] \<noteq> []
   \<and> distinct (map keyword
         [\<lparr>keyword = ''a'', trends_score = 70\<rparr>, \<lparr>keyword = ''b'', trends_score = 30\<rparr>])
   \<and> final_df [''a'', ''b'']
         [\<lparr>keyword = ''a'', trends_score = 70\<rparr>, \<lparr>keyword = ''b'', trends_score = 30\<rparr>] 50 =
       [\<lparr>final_keyword = ''a'', final_trends_score = Some 70,
          final_cpc_usd = Some (get_cpc_from_ubersuggest ''a'')\<rparr>]
   \<and> distinct (map fst [(''t'', 3 / 5 :: real)])
   \<and> pd_merge_left [(''t'', Some 40), (''u'', Some 60)] [(''t'', 3 / 5)] =
       [\<lparr>final_keyword = ''t'', final_trends_score = Some 40, final_cpc_usd = Some (3 / 5)\<rparr>,
        \<lparr>final_keyword = ''u'', final_trends_score = Some 60, final_cpc_usd = None\<rparr>]"
  using left_join_one_row_per_record[of
          "[\<lparr>keyword = ''a'', trends_score = 70\<rparr>, \<lparr>keyword = ''b'', trends_score = 30\<rparr>]"
          "[''a'', ''b'']" 50 "[(''t'', 3 / 5)]" "[(''t'', Some 40), (''u'', Some 60)]"]
  by simp

section \<open>Properties of the fetcher\<close>

lemma append_scores_eq: "append_scores data kws acc = acc @ records_of data kws"
  by (induction kws arbitrary: acc) (auto simp: records_of_def split: option.splits)

lemma try_block_fail:
  "\<not> usable P i kws a \<Longrightarrow>
     try_block P delay i kws a st = (False, st\<lparr>events := events st @ [Request i a kws]\<rparr>)"
  by (auto simp: usable_def try_block_def Let_def split: response.splits)

lemma try_block_ok:
  "P i a kws = Returns data \<Longrightarrow> \<not> df_empty data \<Longrightarrow> 0 \<le> delay \<Longrightarrow>
     try_block P delay i kws a st =
       (True, st\<lparr>trends_data := trends_data st @ records_of (drop_isPartial data) kws,
                 events := events st @ [Request i a kws, Sleep delay]\<rparr>)"
  by (simp add: try_block_def Let_def time_sleep_def append_scores_eq)

lemma loop_done: "\<not> int a < retries \<Longrightarrow> attempt_loop P retries backoff delay i kws a st = Inr st"
  by (subst attempt_loop.simps) simp

lemma loop_fail_step:
  "int (Suc a) < retries \<Longrightarrow> \<not> usable P i kws a \<Longrightarrow> 0 \<le> backoff \<Longrightarrow>
     attempt_loop P retries backoff delay i kws a st =
       attempt_loop P retries backoff delay i kws (Suc a)
         (st\<lparr>events := events st @ [Request i a kws, Sleep (backoff * int (Suc a))]\<rparr>)"
proof -
  assume a: "int (Suc a) < retries" "\<not> usable P i kws a" "0 \<le> backoff"
  have nn: "\<not> backoff * int (Suc a) < 0" using a(3) by (simp add: not_less)
  show ?thesis
    using a(1)
    by (subst attempt_loop.simps) (simp add: try_block_fail[OF a(2)] time_sleep_def nn del: of_nat_Suc)
qed

lemma loop_fail_last:
  "int a < retries \<Longrightarrow> \<not> int (Suc a) < retries \<Longrightarrow> \<not> usable P i kws a \<Longrightarrow>
     attempt_loop P retries backoff delay i kws a st =
       Inr (st\<lparr>events := events st @ [Request i a kws]\<rparr>)"
  by (subst attempt_loop.simps) (simp add: try_block_fail)

lemma loop_ok:
  "int a < retries \<Longrightarrow> P i a kws = Returns data \<Longrightarrow> \<not> df_empty data \<Longrightarrow> 0 \<le> delay \<Longrightarrow>
     attempt_loop P retries backoff delay i kws a st =
       Inr (st\<lparr>trends_data := trends_data st @ records_of (drop_isPartial data) kws,
               events := events st @ [Request i a kws, Sleep delay]\<rparr>)"
  by (subst attempt_loop.simps) (simp add: try_block_ok)

lemma retry_events_Suc:
  "retry_events backoff i kws (Suc k) =
     retry_events backoff i kws k @ [Request i k kws, Sleep (backoff * int (Suc k))]"
  by (simp add: retry_events_def)

lemma loop_skip:
  "0 \<le> backoff \<Longrightarrow> int k < retries \<Longrightarrow> \<forall>a<k. \<not> usable P i kws a \<Longrightarrow>
     attempt_loop P retries backoff delay i kws 0 st =
       attempt_loop P retries backoff delay i kws k
         (st\<lparr>events := events st @ retry_events backoff i kws k\<rparr>)"
proof (induction k)
  case 0
  then show ?case by (simp add: retry_events_def)
next
  case (Suc k)
  have "attempt_loop P retries backoff delay i kws 0 st =
       attempt_loop P retries backoff delay i kws k
         (st\<lparr>events := events st @ retry_events backoff i kws k\<rparr>)"
    using Suc by simp
  also have "\<dots> = attempt_loop P retries backoff delay i kws (Suc k)
         (st\<lparr>events := events st @ retry_events backoff i kws (Suc k)\<rparr>)"
    using Suc.prems by (subst loop_fail_step) (simp_all add: retry_events_Suc)
  finally show ?case .
qed


lemma first_usable_Some:
  "first_usable P retries i kws = Some k \<Longrightarrow>
     int k < retries \<and> usable P i kws k \<and> (\<forall>a<k. \<not> usable P i kws a)"
  by (auto simp: first_usable_def find_Some_iff)


lemma first_usable_None:
  "first_usable P retries i kws = None \<longleftrightarrow> (\<forall>a. int a < retries \<longrightarrow> \<not> usable P i kws a)"
  by (auto simp: first_usable_def find_None_iff)

lemma usable_Returns:
  "usable P i kws a \<Longrightarrow> \<exists>data. P i a kws = Returns data \<and> \<not> df_empty data"
  by (auto simp: usable_def split: response.splits)

lemma attempt_loop_run:
  assumes "0 \<le> backoff" "0 \<le> delay"
  shows "attempt_loop P retries backoff delay i kws 0 st =
           Inr (st\<lparr>trends_data := trends_data st @ batch_records P retries i kws,
                   events := events st @ batch_events P retries backoff delay i kws\<rparr>)"
proof (cases "first_usable P retries i kws")
  case (Some k)
  from first_usable_Some[OF Some]
  have k: "int k < retries" and u: "usable P i kws k" and f: "\<forall>a<k. \<not> usable P i kws a"
    by auto
  from usable_Returns[OF u] obtain data where d: "P i k kws = Returns data" "\<not> df_empty data"
    by blast
  have "attempt_loop P retries backoff delay i kws 0 st =
          attempt_loop P retries backoff delay i kws k
            (st\<lparr>events := events st @ retry_events backoff i kws k\<rparr>)"
    using assms(1) k f by (rule loop_skip)
  also have "\<dots> = Inr (st\<lparr>trends_data := trends_data st @ records_of (drop_isPartial data) kws,
                   events := events st @ retry_events backoff i kws k
                               @ [Request i k kws, Sleep delay]\<rparr>)"
    using k d assms(2) by (simp add: loop_ok)
  finally show ?thesis using Some d by (simp add: batch_records_def batch_events_def)
next
  case None
  then have f: "\<forall>a. int a < retries \<longrightarrow> \<not> usable P i kws a" by (simp add: first_usable_None)
  show ?thesis
  proof (cases "retries \<le> 0")
    case True
    then show ?thesis using None by (simp add: loop_done batch_records_def batch_events_def)
  next
    case False
    define k where "k = nat retries - 1"
    have k: "int k < retries" "\<not> int (Suc k) < retries" using False by (simp_all add: k_def)
    have "attempt_loop P retries backoff delay i kws 0 st =
          attempt_loop P retries backoff delay i kws k
            (st\<lparr>events := events st @ retry_events backoff i kws k\<rparr>)"
      using assms(1) k(1) f by (intro loop_skip) auto
    also have "\<dots> = Inr (st\<lparr>events := events st @ retry_events backoff i kws k
                               @ [Request i k kws]\<rparr>)"
      using k f by (simp add: loop_fail_last)
    finally show ?thesis using None False by (simp add: batch_records_def batch_events_def k_def)
  qed
qed

lemma batch_loop_run:
  assumes "0 \<le> backoff" "0 \<le> delay"
  shows "batch_loop P retries backoff delay i batches st =
           Inr (st\<lparr>trends_data := trends_data st
                     @ concat (map (\<lambda>(j, kws). batch_records P retries j kws) (enumerate i batches)),
                   events := events st
                     @ concat (map (\<lambda>(j, kws). batch_events P retries backoff delay j kws)
                         (enumerate i batches))\<rparr>)"
proof (induction batches arbitrary: i st)
  case Nil
  then show ?case by simp
next
  case (Cons kws batches)
  show ?case by (simp add: attempt_loop_run[OF assms] Cons)
qed

lemma fetch_run:
  assumes "1 \<le> batch_size" "0 \<le> backoff" "0 \<le> delay"
  shows "fetch_google_trends P keywords retries backoff batch_size delay =
           Inr \<lparr>trends_data =
                   concat (map (\<lambda>(j, kws). batch_records P retries j kws)
                     (enumerate 1 (chunks (nat batch_size) keywords))),
                events =
                   concat (map (\<lambda>(j, kws). batch_events P retries backoff delay j kws)
                     (enumerate 1 (chunks (nat batch_size) keywords)))\<rparr>"
  using assms(1)
  by (simp add: fetch_google_trends_def total_batches_def batch_def batch_loop_run[OF assms(2,3)])

text \<open>
  A run that fails later keeps what it did: with a negative backoff the sleep of the handler
  raises after the first failed request of batch 2, and the exception carries the records
  and the events of the run up to that request.
\<close>

lemma negative_backoff_ends_run:
  "fetch_google_trends provider_failing_batch_2 [''p'', ''q'', ''r''] 2 (-1) 2 15 =
     Inl (ValueError,
          \<lparr>trends_data = [\<lparr>keyword = ''p'', trends_score = 50\<rparr>,
                           \<lparr>keyword = ''q'', trends_score = 50\<rparr>],
           events = [Request 1 0 [''p'', ''q''], Sleep 15, Request 2 0 [''r'']]\<rparr>)"
  by (simp add: fetch_google_trends_def total_batches_def batch_def chunks.simps attempt_loop.simps
      try_block_def provider_failing_batch_2_def flagged_frame_def df_empty_def drop_isPartial_def
      drop_columns_def time_sleep_def mean_def Let_def)



lemma records_of_keys:
  "map keyword (records_of data kws) = filter (\<lambda>kw. map_of data kw \<noteq> None) kws"
  by (induction kws) (auto simp: records_of_def split: option.splits)


lemma records_of_subset: "set (map keyword (records_of data kws)) \<subseteq> set kws"
  by (simp only: records_of_keys) auto

lemma batch_records_keys: "set (map keyword (batch_records P retries i kws)) \<subseteq> set kws"
proof (cases "first_usable P retries i kws")
  case None
  then show ?thesis by (simp add: batch_records_def)
next
  case (Some k)
  show ?thesis
  proof (cases "P i k kws")
    case Raises
    then show ?thesis using Some by (simp add: batch_records_def)
  next
    case (Returns data)
    then have "batch_records P retries i kws = records_of (drop_isPartial data) kws"
      using Some by (simp add: batch_records_def)
    then show ?thesis using records_of_subset[of "drop_isPartial data" kws] by simp
  qed
qed

lemma batch_records_exhausted:
  "\<forall>a. int a < retries \<longrightarrow> \<not> usable P i kws a \<Longrightarrow> batch_records P retries i kws = []"
  using first_usable_None[of P retries i kws] by (simp add: batch_records_def)



lemma concat_enumerate_subset:
  "keyword ` set (concat (map (\<lambda>(j, kws). batch_records P retries j kws) (enumerate i bs)))
     \<subseteq> set (concat bs)"
proof (induction bs arbitrary: i)
  case Nil
  then show ?case by simp
next
  case (Cons b bs)
  have h: "keyword ` set (batch_records P retries i b) \<subseteq> set b"
    using batch_records_keys[of P retries i b] by simp
  have "keyword ` set (concat (map (\<lambda>(j, kws). batch_records P retries j kws)
            (enumerate i (b # bs))))
        = keyword ` set (batch_records P retries i b)
          \<union> keyword ` set (concat (map (\<lambda>(j, kws). batch_records P retries j kws)
              (enumerate (Suc i) bs)))"
    by (simp add: image_Un)
  also have "\<dots> \<subseteq> set b \<union> set (concat bs)"
    using h Cons[of "Suc i"] by blast
  finally show ?case by simp
qed

lemma enumerate_split:
  "j < length bs \<Longrightarrow>
     enumerate i bs = enumerate i (take j bs) @ (i + j, bs ! j) # enumerate (Suc (i + j)) (drop (Suc j) bs)"
proof -
  assume j: "j < length bs"
  have "bs = take j bs @ bs ! j # drop (Suc j) bs" using j by (simp add: id_take_nth_drop)
  then have "enumerate i bs = enumerate i (take j bs @ bs ! j # drop (Suc j) bs)" by simp
  also have "\<dots> = enumerate i (take j bs)
        @ enumerate (i + length (take j bs)) (bs ! j # drop (Suc j) bs)"
    by (rule enumerate_append_eq)
  finally show ?thesis using j by (simp add: min_def)
qed

lemma batch_loop_no_retries:
  "retries \<le> 0 \<Longrightarrow> batch_loop P retries backoff delay i batches st = Inr st"
  by (induction batches arbitrary: i) (simp_all add: loop_done)

lemma try_block_events:
  "\<exists>rest. events (snd (try_block P delay i kws a st)) = events st @ Request i a kws # rest"
  by (auto simp: try_block_def Let_def time_sleep_def split: response.splits)

lemma attempt_loop_events_prefix:
  "0 \<le> backoff \<Longrightarrow> int a < retries \<Longrightarrow>
     \<exists>st' rest. attempt_loop P retries backoff delay i kws a st = Inr st'
        \<and> events st' = events st @ Request i a kws # rest"
proof (induction P retries backoff delay i kws a st rule: attempt_loop.induct)
  case (1 P retries backoff delay i kws a st)
  let ?t = "try_block P delay i kws a st"
  obtain r1 where r1: "events (snd ?t) = events st @ Request i a kws # r1"
    using try_block_events by blast
  show ?case
  proof (cases "fst ?t \<or> \<not> int (Suc a) < retries")
    case True
    then have "attempt_loop P retries backoff delay i kws a st = Inr (snd ?t)"
      using "1.prems"(2) by (subst attempt_loop.simps) auto
    then show ?thesis using r1 by blast
  next
    case False
    then have f: "\<not> fst ?t" and s: "int (Suc a) < retries" by auto
    have nn: "\<not> backoff * int (Suc a) < 0" using "1.prems"(1) by (simp add: not_less)
    let ?st2 = "(snd ?t)\<lparr>events := events (snd ?t) @ [Sleep (backoff * int (Suc a))]\<rparr>"
    have ts: "time_sleep (backoff * int (Suc a)) (snd ?t) = Inr ?st2"
      using nn by (simp add: time_sleep_def del: of_nat_Suc)
    from "1.IH"[OF "1.prems"(2) f s ts "1.prems"(1) s]
    obtain st' rest where
      r: "attempt_loop P retries backoff delay i kws (Suc a) ?st2 = Inr st'"
         "events st' = events ?st2 @ Request i (Suc a) kws # rest"
      by blast
    have "attempt_loop P retries backoff delay i kws a st =
            attempt_loop P retries backoff delay i kws (Suc a) ?st2"
      using "1.prems"(2) f s ts by (subst attempt_loop.simps) (simp del: of_nat_Suc)
    then show ?thesis using r r1 by auto
  qed
qed

lemma length_retry_events: "length (retry_events backoff i kws k) = 2 * k"
  by (induction k) (simp_all add: retry_events_Suc, simp add: retry_events_def)

lemma retry_events_sleep:
  "a < k \<Longrightarrow> retry_events backoff i kws k ! (2 * a + 1) = Sleep (backoff * int (Suc a))
     \<and> retry_events backoff i kws k ! (2 * a) = Request i a kws"
proof (induction k)
  case 0
  then show ?case by simp
next
  case (Suc k)
  show ?case
  proof (cases "a < k")
    case True
    then show ?thesis using Suc.IH
      by (simp add: retry_events_Suc nth_append length_retry_events del: of_nat_Suc)
  next
    case False
    then have "a = k" using Suc.prems by simp
    then show ?thesis
      by (simp add: retry_events_Suc nth_append length_retry_events del: of_nat_Suc)
  qed
qed

text \<open>
  C10. With \<open>retries\<close> equal to 0 (or negative) and a batch size of at least 1, the fetch
  makes no request for any batch, sleeps never, and returns the empty list of records.
\<close>

theorem no_attempt_without_retries:
  assumes "retries \<le> 0" "1 \<le> batch_size"
  shows "fetch_google_trends P keywords retries backoff batch_size delay =
           Inr \<lparr>trends_data = [], events = []\<rparr>"
  using assms
  by (simp add: fetch_google_trends_def total_batches_def batch_def batch_loop_no_retries)

theorem no_attempt_without_retries_witness:
  "(0::int) \<le> 0 \<and> (1::int) \<le> 2
   \<and> fetch_google_trends provider_failing_batch_2 [''p'', ''q'', ''r''] 0 5 2 15 =
        Inr \<lparr>trends_data = [], events = []\<rparr>"
  using no_attempt_without_retries[of 0 2 provider_failing_batch_2 "[''p'', ''q'', ''r'']" 5 15]
  by simp

text \<open>
  C7. With a backoff that is not negative, when attempts 1 to \<open>k\<close> of a batch (counter
  values 0 to \<open>k - 1\<close>) fail and \<open>k < retries\<close>, the loop of the batch returns, and its
  events start with the \<open>k\<close> failed requests, each followed by one sleep, and then the
  request of attempt \<open>k + 1\<close>: the sleep after the \<open>n\<close>-th failed request, that is before
  attempt \<open>n + 1\<close>, lasts \<open>backoff * n\<close>, for every \<open>n\<close> from 1 to \<open>k\<close>.
\<close>

theorem linear_backoff_sleeps:
  assumes "0 \<le> backoff" "int k < retries" "\<forall>a<k. \<not> usable P i kw_batch a"
  shows "\<exists>st' rest.
           attempt_loop P retries backoff delay i kw_batch 0 st = Inr st'
           \<and> events st' = events st @ retry_events backoff i kw_batch k
                             @ Request i k kw_batch # rest
           \<and> (\<forall>n. 1 \<le> n \<and> n \<le> k \<longrightarrow>
                 retry_events backoff i kw_batch k ! (2 * (n - 1)) = Request i (n - 1) kw_batch
                 \<and> retry_events backoff i kw_batch k ! (2 * (n - 1) + 1) = Sleep (backoff * int n))"
proof -
  let ?st = "st\<lparr>events := events st @ retry_events backoff i kw_batch k\<rparr>"
  have "attempt_loop P retries backoff delay i kw_batch 0 st =
          attempt_loop P retries backoff delay i kw_batch k ?st"
    using assms by (rule loop_skip)
  moreover from attempt_loop_events_prefix[OF assms(1,2), of P delay i kw_batch ?st]
  obtain st' rest where "attempt_loop P retries backoff delay i kw_batch k ?st = Inr st'"
    "events st' = events ?st @ Request i k kw_batch # rest" by blast
  ultimately have a: "attempt_loop P retries backoff delay i kw_batch 0 st = Inr st'
      \<and> events st' = events st @ retry_events backoff i kw_batch k @ Request i k kw_batch # rest"
    by simp
  have b: "\<forall>n. 1 \<le> n \<and> n \<le> k \<longrightarrow>
                 retry_events backoff i kw_batch k ! (2 * (n - 1)) = Request i (n - 1) kw_batch
                 \<and> retry_events backoff i kw_batch k ! (2 * (n - 1) + 1) = Sleep (backoff * int n)"
  proof (intro allI impI)
    fix n assume n: "1 \<le> n \<and> n \<le> k"
    then have "n - 1 < k" and "Suc (n - 1) = n" by auto
    with retry_events_sleep[of "n - 1" k backoff i kw_batch]
    show "retry_events backoff i kw_batch k ! (2 * (n - 1)) = Request i (n - 1) kw_batch
          \<and> retry_events backoff i kw_batch k ! (2 * (n - 1) + 1) = Sleep (backoff * int n)"
      by (simp del: of_nat_Suc)
  qed
  from a b show ?thesis by blast
qed

theorem linear_backoff_sleeps_witness:
  "(0::int) \<le> 5 \<and> int 2 < 4
   \<and> \<not> usable provider_failing_batch_2 2 [''r'', ''s''] 0
   \<and> \<not> usable provider_failing_batch_2 2 [''r'', ''s''] 1
   \<and> (\<exists>st' rest.
         attempt_loop provider_failing_batch_2 4 5 15 2 [''r'', ''s''] 0
             \<lparr>trends_data = [], events = []\<rparr> = Inr st'
         \<and> events st' = [Request 2 0 [''r'', ''s''], Sleep 5, Request 2 1 [''r'', ''s''], Sleep 10]
                           @ Request 2 2 [''r'', ''s''] # rest)"
proof -
  have h: "(0::int) \<le> 5" "int 2 < 4" by simp_all
  have u: "\<forall>a<2. \<not> usable provider_failing_batch_2 2 [''r'', ''s''] a"
    by (simp add: usable_def provider_failing_batch_2_def)
  have r: "retry_events 5 2 [''r'', ''s''] 2 =
             [Request 2 0 [''r'', ''s''], Sleep 5, Request 2 1 [''r'', ''s''], Sleep 10]"
    by (simp add: retry_events_def numeral_2_eq_2)
  from linear_backoff_sleeps[OF h u, of 15 "\<lparr>trends_data = [], events = []\<rparr>"]
  show ?thesis using h u r by auto
qed

text \<open>
  C2, as the specification states it, fails: the sleep of line 142 follows every batch that
  succeeds, the last batch of the run included. Here the run has one batch, and it ends
  with the sleep of \<open>delay = 15\<close>.
\<close>

theorem delay_sleep_after_last_batch:
  "fetch_google_trends provider_failing_batch_2 [''p'', ''q''] 3 5 2 15 =
     Inr \<lparr>trends_data = [\<lparr>keyword = ''p'', trends_score = 50\<rparr>,
                         \<lparr>keyword = ''q'', trends_score = 50\<rparr>],
          events = [Request 1 0 [''p'', ''q''], Sleep 15]\<rparr>"
  by (simp add: fetch_google_trends_def total_batches_def batch_def chunks.simps attempt_loop.simps
      try_block_def provider_failing_batch_2_def flagged_frame_def df_empty_def drop_isPartial_def
      drop_columns_def time_sleep_def mean_def Let_def)

text \<open>
  C2, amended. For a batch size of at least 1 and a backoff and a delay that are not negative,
  the fetch returns, and its events are those of its batches, one batch after the other. A
  batch with a usable attempt ends with that request and the sleep of \<open>delay\<close>, wherever the
  batch stands in the run: when the last batch has a usable attempt, the sleep of \<open>delay\<close> is
  the last event of the run. A batch that exhausts its retries ends with its last request: no
  sleep follows it.
\<close>

theorem delay_sleep_after_every_success:
  assumes "1 \<le> batch_size" "0 \<le> backoff" "0 \<le> delay"
  shows "\<exists>st. fetch_google_trends P keywords retries backoff batch_size delay = Inr st
           \<and> events st =
               concat (map (\<lambda>(i, kw_batch). batch_events P retries backoff delay i kw_batch)
                 (enumerate 1 (chunks (nat batch_size) keywords)))
           \<and> (\<forall>i kw_batch k. first_usable P retries i kw_batch = Some k \<longrightarrow>
                 batch_events P retries backoff delay i kw_batch =
                   retry_events backoff i kw_batch k @ [Request i k kw_batch, Sleep delay])
           \<and> (\<forall>i kw_batch. first_usable P retries i kw_batch = None \<and> 0 < retries \<longrightarrow>
                 batch_events P retries backoff delay i kw_batch =
                   retry_events backoff i kw_batch (nat retries - 1)
                     @ [Request i (nat retries - 1) kw_batch])
           \<and> (chunks (nat batch_size) keywords \<noteq> []
                \<and> first_usable P retries (length (chunks (nat batch_size) keywords))
                     (last (chunks (nat batch_size) keywords)) \<noteq> None \<longrightarrow>
                 last (events st) = Sleep delay)"
proof -
  let ?bs = "chunks (nat batch_size) keywords"
  let ?f = "\<lambda>(i, kw_batch). batch_events P retries backoff delay i kw_batch"
  let ?st = "\<lparr>trends_data =
                 concat (map (\<lambda>(j, kws). batch_records P retries j kws) (enumerate 1 ?bs)),
              events = concat (map ?f (enumerate 1 ?bs))\<rparr>"
  have run: "fetch_google_trends P keywords retries backoff batch_size delay = Inr ?st"
    using assms by (rule fetch_run)
  have ev: "events ?st = concat (map ?f (enumerate 1 ?bs))" by simp
  have ok: "\<forall>i kw_batch k. first_usable P retries i kw_batch = Some k \<longrightarrow>
                 batch_events P retries backoff delay i kw_batch =
                   retry_events backoff i kw_batch k @ [Request i k kw_batch, Sleep delay]"
    by (simp add: batch_events_def)
  have ex: "\<forall>i kw_batch. first_usable P retries i kw_batch = None \<and> 0 < retries \<longrightarrow>
                 batch_events P retries backoff delay i kw_batch =
                   retry_events backoff i kw_batch (nat retries - 1)
                     @ [Request i (nat retries - 1) kw_batch]"
    by (simp add: batch_events_def)
  have la: "?bs \<noteq> [] \<and> first_usable P retries (length ?bs) (last ?bs) \<noteq> None \<longrightarrow>
              last (events ?st) = Sleep delay"
  proof
    assume a: "?bs \<noteq> [] \<and> first_usable P retries (length ?bs) (last ?bs) \<noteq> None"
    then obtain k where k: "first_usable P retries (length ?bs) (last ?bs) = Some k" by auto
    have "enumerate 1 (butlast ?bs @ [last ?bs])
            = enumerate 1 (butlast ?bs) @ [(length ?bs, last ?bs)]"
      using a by (simp add: enumerate_append_eq del: append_butlast_last_id)
    moreover have "butlast ?bs @ [last ?bs] = ?bs" using a by simp
    ultimately have "enumerate 1 ?bs = enumerate 1 (butlast ?bs) @ [(length ?bs, last ?bs)]"
      by (simp only:)
    then have "events ?st = concat (map ?f (enumerate 1 (butlast ?bs)))
                     @ batch_events P retries backoff delay (length ?bs) (last ?bs)"
      by simp
    then show "last (events ?st) = Sleep delay" using k by (simp add: batch_events_def)
  qed
  from run ev ok ex la show ?thesis by blast
qed

theorem delay_sleep_after_every_success_witness:
  "(1::int) \<le> 2 \<and> (0::int) \<le> 5 \<and> (0::int) \<le> 15
   \<and> first_usable provider_failing_batch_2 3 3 [''t'', ''u''] = Some 0
   \<and> first_usable provider_failing_batch_2 3 2 [''r'', ''s''] = None \<and> (0::int) < 3
   \<and> (\<exists>st. fetch_google_trends provider_failing_batch_2
               [''p'', ''q'', ''r'', ''s'', ''t'', ''u''] 3 5 2 15 = Inr st
         \<and> events st =
             [Request 1 0 [''p'', ''q''], Sleep 15,
              Request 2 0 [''r'', ''s''], Sleep 5, Request 2 1 [''r'', ''s''], Sleep 10,
              Request 2 2 [''r'', ''s''],
              Request 3 0 [''t'', ''u''], Sleep 15]
         \<and> last (events st) = Sleep 15)"
proof -
  have h: "(1::int) \<le> 2" "(0::int) \<le> 5" "(0::int) \<le> 15" by simp_all
  have f3: "first_usable provider_failing_batch_2 3 3 [''t'', ''u''] = Some 0"
    by (simp add: first_usable_def usable_def provider_failing_batch_2_def flagged_frame_def
        df_empty_def upt_rec)
  have f2: "first_usable provider_failing_batch_2 3 2 [''r'', ''s''] = None"
    by (simp add: first_usable_None usable_def provider_failing_batch_2_def)
  have e: "fetch_google_trends provider_failing_batch_2
               [''p'', ''q'', ''r'', ''s'', ''t'', ''u''] 3 5 2 15 =
      Inr \<lparr>trends_data = [\<lparr>keyword = ''p'', trends_score = 50\<rparr>,
                          \<lparr>keyword = ''q'', trends_score = 50\<rparr>,
                          \<lparr>keyword = ''t'', trends_score = 50\<rparr>,
                          \<lparr>keyword = ''u'', trends_score = 50\<rparr>],
           events = [Request 1 0 [''p'', ''q''], Sleep 15,
              Request 2 0 [''r'', ''s''], Sleep 5, Request 2 1 [''r'', ''s''], Sleep 10,
              Request 2 2 [''r'', ''s''],
              Request 3 0 [''t'', ''u''], Sleep 15]\<rparr>"
    by (simp add: fetch_google_trends_def total_batches_def batch_def chunks.simps
        attempt_loop.simps try_block_def provider_failing_batch_2_def flagged_frame_def
        df_empty_def drop_isPartial_def drop_columns_def time_sleep_def mean_def Let_def)
  from delay_sleep_after_every_success[OF h,
         of provider_failing_batch_2 "[''p'', ''q'', ''r'', ''s'', ''t'', ''u'']" 3]
  obtain st where s: "fetch_google_trends provider_failing_batch_2
               [''p'', ''q'', ''r'', ''s'', ''t'', ''u''] 3 5 2 15 = Inr st"
    by blast
  with e have "events st = [Request 1 0 [''p'', ''q''], Sleep 15,
              Request 2 0 [''r'', ''s''], Sleep 5, Request 2 1 [''r'', ''s''], Sleep 10,
              Request 2 2 [''r'', ''s''],
              Request 3 0 [''t'', ''u''], Sleep 15]"
    by simp
  then show ?thesis using f3 f2 s by simp
qed

text \<open>
  C6. For a batch size of at least 1 and a backoff and a delay that are not negative, when
  every attempt of one batch fails (the provider raises or returns an empty frame), the
  fetch still returns; the records it returns are those of the batches before it followed by
  those of the batches after it; and when no keyword occurs twice in the input, no keyword of
  the failed batch is the keyword of a returned record.
\<close>

theorem exhausted_batch_is_isolated:
  assumes "1 \<le> batch_size" "0 \<le> backoff" "0 \<le> delay"
    and "j < length (chunks (nat batch_size) keywords)"
    and "\<forall>a. int a < retries \<longrightarrow>
           \<not> usable P (Suc j) (chunks (nat batch_size) keywords ! j) a"
  shows "\<exists>st. fetch_google_trends P keywords retries backoff batch_size delay = Inr st
           \<and> trends_data st =
               concat (map (\<lambda>(i, kw_batch). batch_records P retries i kw_batch)
                 (enumerate 1 (take j (chunks (nat batch_size) keywords))))
               @ concat (map (\<lambda>(i, kw_batch). batch_records P retries i kw_batch)
                   (enumerate (Suc (Suc j)) (drop (Suc j) (chunks (nat batch_size) keywords))))
           \<and> (distinct keywords \<longrightarrow>
                 set (chunks (nat batch_size) keywords ! j) \<inter> keyword ` set (trends_data st) = {})"
proof -
  let ?bs = "chunks (nat batch_size) keywords"
  let ?g = "\<lambda>(i, kw_batch). batch_records P retries i kw_batch"
  let ?st = "\<lparr>trends_data = concat (map ?g (enumerate 1 ?bs)),
              events = concat (map (\<lambda>(j, kws). batch_events P retries backoff delay j kws)
                         (enumerate 1 ?bs))\<rparr>"
  let ?before = "concat (map ?g (enumerate 1 (take j ?bs)))"
  let ?after = "concat (map ?g (enumerate (Suc (Suc j)) (drop (Suc j) ?bs)))"
  have run: "fetch_google_trends P keywords retries backoff batch_size delay = Inr ?st"
    using assms(1-3) by (rule fetch_run)
  have none: "batch_records P retries (Suc j) (?bs ! j) = []"
    using assms(5) by (rule batch_records_exhausted)
  have "enumerate 1 ?bs =
          enumerate 1 (take j ?bs) @ (1 + j, ?bs ! j) # enumerate (Suc (1 + j)) (drop (Suc j) ?bs)"
    using assms(4) by (rule enumerate_split)
  then have td: "trends_data ?st = ?before @ ?after" using none by simp
  have dis: "distinct keywords \<longrightarrow> set (?bs ! j) \<inter> keyword ` set (trends_data ?st) = {}"
  proof
    assume d: "distinct keywords"
    have m: "0 < nat batch_size" using assms(1) by simp
    have "keywords = concat ?bs" by (simp add: chunks_concat[OF m])
    also have "\<dots> = concat (take j ?bs @ ?bs ! j # drop (Suc j) ?bs)"
      using assms(4) by (simp add: id_take_nth_drop[symmetric])
    finally have k: "keywords = concat (take j ?bs) @ ?bs ! j @ concat (drop (Suc j) ?bs)"
      by simp
    have "distinct (concat (take j ?bs) @ ?bs ! j @ concat (drop (Suc j) ?bs))"
      using d k by simp
    then have d1: "set (?bs ! j) \<inter> set (concat (take j ?bs)) = {}"
      and d2: "set (?bs ! j) \<inter> set (concat (drop (Suc j) ?bs)) = {}"
      by auto
    have s1: "keyword ` set ?before \<subseteq> set (concat (take j ?bs))"
      by (rule concat_enumerate_subset)
    have s2: "keyword ` set ?after \<subseteq> set (concat (drop (Suc j) ?bs))"
      by (rule concat_enumerate_subset)
    have "keyword ` set (trends_data ?st) = keyword ` set ?before \<union> keyword ` set ?after"
      by (simp only: td set_append image_Un)
    then show "set (?bs ! j) \<inter> keyword ` set (trends_data ?st) = {}"
      using d1 d2 s1 s2 by blast
  qed
  from run td dis show ?thesis by blast
qed


theorem exhausted_batch_is_isolated_witness:
  "(1::int) \<le> 2 \<and> (0::int) \<le> 5 \<and> (0::int) \<le> 15
   \<and> chunks (nat 2) [''p'', ''q'', ''r'', ''s'', ''t'', ''u'']
       = [[''p'', ''q''], [''r'', ''s''], [''t'', ''u'']]
   \<and> \<not> usable provider_failing_batch_2 2 [''r'', ''s''] 0
   \<and> \<not> usable provider_failing_batch_2 2 [''r'', ''s''] 1
   \<and> \<not> usable provider_failing_batch_2 2 [''r'', ''s''] 2
   \<and> distinct [''p'', ''q'', ''r'', ''s'', ''t'', ''u'']
   \<and> (\<exists>st. fetch_google_trends provider_failing_batch_2
               [''p'', ''q'', ''r'', ''s'', ''t'', ''u''] 3 5 2 15 = Inr st
         \<and> trends_data st =
             [\<lparr>keyword = ''p'', trends_score = 50\<rparr>, \<lparr>keyword = ''q'', trends_score = 50\<rparr>,
              \<lparr>keyword = ''t'', trends_score = 50\<rparr>, \<lparr>keyword = ''u'', trends_score = 50\<rparr>]
         \<and> set [''r'', ''s''] \<inter> keyword ` set (trends_data st) = {})"
proof -
  have h: "(1::int) \<le> 2" "(0::int) \<le> 5" "(0::int) \<le> 15" by simp_all
  have c: "chunks (nat 2) [''p'', ''q'', ''r'', ''s'', ''t'', ''u'']
             = [[''p'', ''q''], [''r'', ''s''], [''t'', ''u'']]"
    by (simp add: chunks.simps)
  have j: "1 < length (chunks (nat 2) [''p'', ''q'', ''r'', ''s'', ''t'', ''u''])"
    by (simp only: c) simp
  have u: "\<forall>a. int a < 3 \<longrightarrow>
      \<not> usable provider_failing_batch_2 (Suc 1)
          (chunks (nat 2) [''p'', ''q'', ''r'', ''s'', ''t'', ''u''] ! 1) a"
    by (simp add: usable_def provider_failing_batch_2_def)
  have e: "fetch_google_trends provider_failing_batch_2
               [''p'', ''q'', ''r'', ''s'', ''t'', ''u''] 3 5 2 15 =
      Inr \<lparr>trends_data = [\<lparr>keyword = ''p'', trends_score = 50\<rparr>,
                          \<lparr>keyword = ''q'', trends_score = 50\<rparr>,
                          \<lparr>keyword = ''t'', trends_score = 50\<rparr>,
                          \<lparr>keyword = ''u'', trends_score = 50\<rparr>],
           events = [Request 1 0 [''p'', ''q''], Sleep 15,
              Request 2 0 [''r'', ''s''], Sleep 5, Request 2 1 [''r'', ''s''], Sleep 10,
              Request 2 2 [''r'', ''s''],
              Request 3 0 [''t'', ''u''], Sleep 15]\<rparr>"
    by (simp add: fetch_google_trends_def total_batches_def batch_def chunks.simps
        attempt_loop.simps try_block_def provider_failing_batch_2_def flagged_frame_def
        df_empty_def drop_isPartial_def drop_columns_def time_sleep_def mean_def Let_def)
  from exhausted_batch_is_isolated[OF h j u]
  obtain st where s: "fetch_google_trends provider_failing_batch_2
               [''p'', ''q'', ''r'', ''s'', ''t'', ''u''] 3 5 2 15 = Inr st"
    by blast
  with e have "trends_data st =
             [\<lparr>keyword = ''p'', trends_score = 50\<rparr>, \<lparr>keyword = ''q'', trends_score = 50\<rparr>,
              \<lparr>keyword = ''t'', trends_score = 50\<rparr>, \<lparr>keyword = ''u'', trends_score = 50\<rparr>]"
    by simp
  then show ?thesis using c s by (simp add: usable_def provider_failing_batch_2_def)
qed







end
